theory Spec2Isabelle
  imports Main "HOL-Library.AList" "HOL-Library.Sublist"
begin

section \<open>JSON values and the platform codec\<close>

text \<open>
  The interactive converter (\<^verbatim>\<open>interactive.js\<close>, class \<^verbatim>\<open>InteractiveConverter\<close>) moves
  option values through \<^verbatim>\<open>JSON.stringify\<close> and \<^verbatim>\<open>JSON.parse\<close>. Both are modelled
  here as executable functions on text. Text is a HOL string, read as the UTF-8 bytes of the
  script's string. A number is an integer; a number literal with a fraction or an exponent is
  accepted by the parser and kept as its text (\<open>JFrac\<close>), since the double it denotes is
  not computed. An object is an association list in property order; a repeated key in a
  parsed text overwrites the earlier value in place, as property assignment does. The
  reordering of integer-like keys is not modelled.
\<close>

datatype json =
    JNull
  | JBool bool
  | JNum int
  | JFrac string
  | JStr string
  | JArr "json list"
  | JObj "(string \<times> json) list"

subsection \<open>\<^verbatim>\<open>JSON.stringify\<close>\<close>

definition dquote :: char where "dquote = CHR 0x22"
definition bslash :: char where "bslash = CHR 0x5C"

definition digit_char :: "nat \<Rightarrow> char" where
  "digit_char n = ''0123456789abcdef'' ! n"

fun show_nat :: "nat \<Rightarrow> string" where
  "show_nat n = (if n < 10 then [digit_char n] else show_nat (n div 10) @ [digit_char (n mod 10)])"

declare show_nat.simps [simp del]

definition show_int :: "int \<Rightarrow> string" where
  "show_int i = (if i < 0 then CHR ''-'' # show_nat (nat (- i)) else show_nat (nat i))"

definition escape_char :: "char \<Rightarrow> string" where
  "escape_char c =
     (if c = dquote then [bslash, dquote]
      else if c = bslash then [bslash, bslash]
      else if c = CHR 0x08 then [bslash, CHR ''b'']
      else if c = CHR 0x09 then [bslash, CHR ''t'']
      else if c = CHR 0x0A then [bslash, CHR ''n'']
      else if c = CHR 0x0C then [bslash, CHR ''f'']
      else if c = CHR 0x0D then [bslash, CHR ''r'']
      else if (of_char c :: nat) < 32
        then [bslash, CHR ''u'', CHR ''0'', CHR ''0'',
              digit_char (of_char c div 16), digit_char (of_char c mod 16)]
      else [c])"

definition quote :: "string \<Rightarrow> string" where
  "quote s = dquote # concat (map escape_char s) @ [dquote]"

fun join_comma :: "string list \<Rightarrow> string" where
  "join_comma [] = []"
| "join_comma [x] = x"
| "join_comma (x # y # ys) = x @ CHR '','' # join_comma (y # ys)"

fun stringify :: "json \<Rightarrow> string" where
  "stringify JNull = ''null''"
| "stringify (JBool b) = (if b then ''true'' else ''false'')"
| "stringify (JNum n) = show_int n"
| "stringify (JFrac s) = s"
| "stringify (JStr s) = quote s"
| "stringify (JArr xs) = CHR ''['' # join_comma (map stringify xs) @ '']''"
| "stringify (JObj kvs) =
     CHR ''{'' # join_comma (map (\<lambda>(k, v). quote k @ CHR '':'' # stringify v) kvs) @ ''}''"


subsection \<open>\<^verbatim>\<open>JSON.parse\<close>\<close>

text \<open>
  A recursive-descent parser for the JSON grammar. The three mutually recursive functions
  carry a bound on the nesting and sequence length still allowed; \<open>JSON_parse\<close> starts
  them with one more than the length of the text, which no parse can use up (lemma
  \<open>JSON_parse_bound_adequate\<close> below). \<open>None\<close> stands for the
  \<^verbatim>\<open>SyntaxError\<close> that \<^verbatim>\<open>JSON.parse\<close> throws. An escape \<^verbatim>\<open>\uXXXX\<close> is decoded to the UTF-8 bytes of
  that code unit.
\<close>

definition is_ws :: "char \<Rightarrow> bool" where
  "is_ws c \<longleftrightarrow> c = CHR '' '' \<or> c = CHR 0x09 \<or> c = CHR 0x0A \<or> c = CHR 0x0D"

definition skip_ws :: "string \<Rightarrow> string" where
  "skip_ws s = dropWhile is_ws s"

definition is_digit :: "char \<Rightarrow> bool" where
  "is_digit c \<longleftrightarrow> 48 \<le> (of_char c :: nat) \<and> (of_char c :: nat) \<le> 57"

definition digit_val :: "char \<Rightarrow> nat" where
  "digit_val c = of_char c - 48"

definition nat_of_digits :: "string \<Rightarrow> nat" where
  "nat_of_digits ds = foldl (\<lambda>a c. 10 * a + digit_val c) 0 ds"

definition hex_val :: "char \<Rightarrow> nat option" where
  "hex_val c =
     (let n = (of_char c :: nat) in
      if 48 \<le> n \<and> n \<le> 57 then Some (n - 48)
      else if 97 \<le> n \<and> n \<le> 102 then Some (n - 87)
      else if 65 \<le> n \<and> n \<le> 70 then Some (n - 55)
      else None)"

definition hex4 :: "char \<Rightarrow> char \<Rightarrow> char \<Rightarrow> char \<Rightarrow> nat option" where
  "hex4 a b c d =
     (case (hex_val a, hex_val b, hex_val c, hex_val d) of
        (Some w, Some x, Some y, Some z) \<Rightarrow> Some (((w * 16 + x) * 16 + y) * 16 + z)
      | _ \<Rightarrow> None)"

definition utf8 :: "nat \<Rightarrow> string" where
  "utf8 n =
     (if n < 128 then [char_of n]
      else if n < 2048 then [char_of (192 + n div 64), char_of (128 + n mod 64)]
      else [char_of (224 + n div 4096), char_of (128 + (n div 64) mod 64),
            char_of (128 + n mod 64)])"

definition unescape :: "char \<Rightarrow> char option" where
  "unescape e =
     (if e = dquote then Some dquote
      else if e = bslash then Some bslash
      else if e = CHR ''/'' then Some CHR ''/''
      else if e = CHR ''b'' then Some (CHR 0x08)
      else if e = CHR ''f'' then Some (CHR 0x0C)
      else if e = CHR ''n'' then Some (CHR 0x0A)
      else if e = CHR ''r'' then Some (CHR 0x0D)
      else if e = CHR ''t'' then Some (CHR 0x09)
      else None)"

fun parse_string :: "string \<Rightarrow> (string \<times> string) option" where
  "parse_string [] = None"
| "parse_string (c # cs) =
     (if c = dquote then Some ([], cs)
      else if c = bslash then
        (case cs of
           [] \<Rightarrow> None
         | e # r \<Rightarrow>
             if e = CHR ''u'' then
               (case r of
                  h1 # h2 # h3 # h4 # r' \<Rightarrow>
                    (case hex4 h1 h2 h3 h4 of
                       None \<Rightarrow> None
                     | Some n \<Rightarrow>
                         (case parse_string r' of
                            None \<Rightarrow> None
                          | Some (s, rest) \<Rightarrow> Some (utf8 n @ s, rest)))
                | _ \<Rightarrow> None)
             else
               (case unescape e of
                  None \<Rightarrow> None
                | Some ch \<Rightarrow>
                    (case parse_string r of
                       None \<Rightarrow> None
                     | Some (s, rest) \<Rightarrow> Some (ch # s, rest))))
      else if (of_char c :: nat) < 32 then None
      else
        (case parse_string cs of
           None \<Rightarrow> None
         | Some (s, rest) \<Rightarrow> Some (c # s, rest)))"

definition parse_frac :: "string \<Rightarrow> (bool \<times> string) option" where
  "parse_frac s =
     (case s of
        [] \<Rightarrow> Some (False, s)
      | c # r \<Rightarrow>
          if c = CHR ''.'' then
            (if takeWhile is_digit r = [] then None else Some (True, dropWhile is_digit r))
          else Some (False, s))"

definition parse_exp :: "string \<Rightarrow> (bool \<times> string) option" where
  "parse_exp s =
     (case s of
        [] \<Rightarrow> Some (False, s)
      | c # r \<Rightarrow>
          if c = CHR ''e'' \<or> c = CHR ''E'' then
            (let r1 = (case r of
                         [] \<Rightarrow> r
                       | d # r' \<Rightarrow> if d = CHR ''+'' \<or> d = CHR ''-'' then r' else r)
             in if takeWhile is_digit r1 = [] then None
                else Some (True, dropWhile is_digit r1))
          else Some (False, s))"

definition parse_number :: "string \<Rightarrow> (json \<times> string) option" where
  "parse_number s =
     (let neg = (s \<noteq> [] \<and> hd s = CHR ''-'');
          s1 = (if neg then tl s else s);
          ds = takeWhile is_digit s1;
          s2 = dropWhile is_digit s1
      in if ds = [] \<or> (1 < length ds \<and> hd ds = CHR ''0'') then None
         else
           (case parse_frac s2 of
              None \<Rightarrow> None
            | Some (has_frac, s3) \<Rightarrow>
                (case parse_exp s3 of
                   None \<Rightarrow> None
                 | Some (has_exp, s4) \<Rightarrow>
                     if has_frac \<or> has_exp
                     then Some (JFrac (take (length s - length s4) s), s4)
                     else Some (JNum (if neg then - int (nat_of_digits ds)
                                      else int (nat_of_digits ds)), s2))))"

definition object_of :: "(string \<times> json) list \<Rightarrow> json" where
  "object_of kvs = JObj (foldl (\<lambda>acc (k, v). AList.update k v acc) [] kvs)"

fun parse_value :: "nat \<Rightarrow> string \<Rightarrow> (json \<times> string) option"
  and parse_elements :: "nat \<Rightarrow> string \<Rightarrow> (json list \<times> string) option"
  and parse_members :: "nat \<Rightarrow> string \<Rightarrow> ((string \<times> json) list \<times> string) option"
where
  "parse_value 0 s = None"
| "parse_value (Suc f) s =
     (case s of
        [] \<Rightarrow> None
      | c # cs \<Rightarrow>
          if c = CHR ''{'' then
            (case skip_ws cs of
               [] \<Rightarrow> None
             | d # r \<Rightarrow>
                 if d = CHR ''}'' then Some (JObj [], r)
                 else (case parse_members f (d # r) of
                         None \<Rightarrow> None
                       | Some (kvs, rest) \<Rightarrow> Some (object_of kvs, rest)))
          else if c = CHR ''['' then
            (case skip_ws cs of
               [] \<Rightarrow> None
             | d # r \<Rightarrow>
                 if d = CHR '']'' then Some (JArr [], r)
                 else (case parse_elements f (d # r) of
                         None \<Rightarrow> None
                       | Some (vs, rest) \<Rightarrow> Some (JArr vs, rest)))
          else if c = dquote then
            (case parse_string cs of
               None \<Rightarrow> None
             | Some (str, rest) \<Rightarrow> Some (JStr str, rest))
          else if c = CHR ''-'' \<or> is_digit c then parse_number s
          else if take 4 s = ''true'' then Some (JBool True, drop 4 s)
          else if take 5 s = ''false'' then Some (JBool False, drop 5 s)
          else if take 4 s = ''null'' then Some (JNull, drop 4 s)
          else None)"
| "parse_elements 0 s = None"
| "parse_elements (Suc f) s =
     (case parse_value f s of
        None \<Rightarrow> None
      | Some (v, r) \<Rightarrow>
          (case skip_ws r of
             [] \<Rightarrow> None
           | d # r' \<Rightarrow>
               if d = CHR '','' then
                 (case parse_elements f (skip_ws r') of
                    None \<Rightarrow> None
                  | Some (vs, rest) \<Rightarrow> Some (v # vs, rest))
               else if d = CHR '']'' then Some ([v], r')
               else None))"
| "parse_members 0 s = None"
| "parse_members (Suc f) s =
     (case s of
        [] \<Rightarrow> None
      | q # cs \<Rightarrow>
          if q \<noteq> dquote then None
          else
            (case parse_string cs of
               None \<Rightarrow> None
             | Some (k, r) \<Rightarrow>
                 (case skip_ws r of
                    [] \<Rightarrow> None
                  | colon # r1 \<Rightarrow>
                      if colon \<noteq> CHR '':'' then None
                      else
                        (case parse_value f (skip_ws r1) of
                           None \<Rightarrow> None
                         | Some (v, r2) \<Rightarrow>
                             (case skip_ws r2 of
                                [] \<Rightarrow> None
                              | d # r3 \<Rightarrow>
                                  if d = CHR '','' then
                                    (case parse_members f (skip_ws r3) of
                                       None \<Rightarrow> None
                                     | Some (kvs, rest) \<Rightarrow> Some ((k, v) # kvs, rest))
                                  else if d = CHR ''}'' then Some ([(k, v)], r3)
                                  else None)))))"

definition JSON_parse :: "string \<Rightarrow> json option" where
  "JSON_parse s =
     (case parse_value (Suc (length s)) (skip_ws s) of
        None \<Rightarrow> None
      | Some (v, rest) \<Rightarrow> if skip_ws rest = [] then Some v else None)"


section \<open>Data exchanged with the resolver\<close>

text \<open>
  \<open>typeof_object v\<close> is \<^verbatim>\<open>typeof v === 'object'\<close>, which holds for objects, arrays and
  \<^verbatim>\<open>null\<close>. \<open>to_string\<close> is the string conversion applied when a primitive is stored
  in a \<^verbatim>\<open>data-\<close> attribute.
\<close>

definition typeof_object :: "json \<Rightarrow> bool" where
  "typeof_object v = (case v of JNull \<Rightarrow> True | JArr xs \<Rightarrow> True | JObj kvs \<Rightarrow> True | _ \<Rightarrow> False)"

definition to_string :: "json \<Rightarrow> string" where
  "to_string v = (case v of JStr s \<Rightarrow> s | _ \<Rightarrow> stringify v)"

text \<open>
  A request either fails (\<^verbatim>\<open>fetch\<close> or \<^verbatim>\<open>response.json()\<close> rejects with a message) or
  yields the parsed reply. One record per endpoint holds the fields the client reads.
  \<open>status_completion_info\<close> is \<open>Some result\<close> when
  \<^verbatim>\<open>data.session_status.completion_info\<close> is present. A \<open>server\<close> value gives, for one
  operation of the client, the answer of each endpoint; every operation asks each endpoint
  at most once.
\<close>

datatype 'a fetched = Failed string | Reply 'a

record decision =
  dec_id :: string
  dec_type :: string
  dec_description :: string
  dec_context :: string
  dec_impact :: "string option"
  dec_options :: "json list"
  dec_default_option :: "json option"

record start_reply =
  start_status :: string
  start_session_id :: string
  start_pending_decisions :: int
  start_message :: string

record decisions_reply =
  decisions_status :: string
  decisions_pending :: "decision list"

record resolve_reply =
  resolve_status :: string
  resolve_pending_decisions :: int
  resolve_session_status :: string
  resolve_result :: string
  resolve_message :: string

record status_reply =
  status_status :: string
  status_completion_info :: "string option"
  status_message :: string

record complete_reply =
  complete_status :: string
  complete_result :: string
  complete_message :: string

record server =
  start_r :: "start_reply fetched"
  decisions_r :: "decisions_reply fetched"
  resolve_r :: "resolve_reply fetched"
  status_r :: "status_reply fetched"
  complete_r :: "complete_reply fetched"
  cancel_r :: "unit fetched"

datatype request =
    StartReq string string string
  | DecisionsReq "string option"
  | ResolveReq string
  | StatusReq "string option"
  | CompleteReq "string option"
  | CancelReq "string option" string

section \<open>The client\<close>

text \<open>
  The state is the three fields of \<^verbatim>\<open>InteractiveConverter\<close>, the parts of the page and of
  \<^verbatim>\<open>window.converter\<close> that its methods read or write, and two logs: the toasts shown to
  the user and the requests sent. \<open>decisionPanel\<close> is the content of
  \<^verbatim>\<open>#decision-panel\<close>: the decision id in its \<^verbatim>\<open>dataset\<close>, the \<^verbatim>\<open>data-value\<close> of each
  option button and the state of the \<^verbatim>\<open>#store-preference\<close> checkbox; it is \<open>None\<close>
  until a decision has been rendered. Texts shown for a decision (title, description,
  button labels, the header line) are not tracked.
\<close>

record history_entry =
  h_decision_id :: string
  h_choice :: json

record panel =
  panel_decision_id :: string
  option_values :: "string list"
  store_preference :: bool

record client =
  sessionId :: "string option"
  pendingDecisions :: "decision list"
  conversionHistory :: "history_entry list"
  currentFile :: "string option"
  currentResult :: "string option"
  sourceFormat :: string
  targetFormat :: string
  panelShown :: bool
  sessionIdText :: string
  pendingCountText :: string
  containerShown :: bool
  decisionPanel :: "panel option"
  progressCount :: "nat option"
  outputText :: string
  exportEnabled :: bool
  evaluateEnabled :: bool
  spinnerShown :: bool
  toasts :: "(string \<times> string) list"
  requests :: "request list"

definition constructor :: "string option \<Rightarrow> string \<Rightarrow> string \<Rightarrow> client" where
  "constructor file src tgt =
     \<lparr> sessionId = None, pendingDecisions = [], conversionHistory = [],
       currentFile = file, currentResult = None,
       sourceFormat = src, targetFormat = tgt,
       panelShown = False, sessionIdText = ''-'', pendingCountText = ''-'',
       containerShown = False, decisionPanel = None, progressCount = None,
       outputText = [], exportEnabled = False, evaluateEnabled = False,
       spinnerShown = False, toasts = [], requests = [] \<rparr>"

definition showToast :: "string \<Rightarrow> string \<Rightarrow> client \<Rightarrow> client" where
  "showToast msg kind c = c\<lparr>toasts := toasts c @ [(msg, kind)]\<rparr>"

definition showSpinner :: "client \<Rightarrow> client" where
  "showSpinner c = c\<lparr>spinnerShown := True\<rparr>"

definition hideSpinner :: "client \<Rightarrow> client" where
  "hideSpinner c = c\<lparr>spinnerShown := False\<rparr>"

definition updateResult :: "string \<Rightarrow> client \<Rightarrow> client" where
  "updateResult content c =
     c\<lparr>outputText := content, exportEnabled := (content \<noteq> []),
       evaluateEnabled := (content \<noteq> [])\<rparr>"

definition fetch :: "request \<Rightarrow> client \<Rightarrow> client" where
  "fetch req c = c\<lparr>requests := requests c @ [req]\<rparr>"

definition has_session :: "client \<Rightarrow> bool" where
  "has_session c = (case sessionId c of None \<Rightarrow> False | Some s \<Rightarrow> s \<noteq> [])"

definition updateCompletionInfo :: "client \<Rightarrow> client" where
  "updateCompletionInfo c = c\<lparr>progressCount := Some (length (conversionHistory c))\<rparr>"

definition show_completed :: "string \<Rightarrow> client \<Rightarrow> client" where
  "show_completed result c =
     updateCompletionInfo
       (showToast ''Conversion completed successfully'' ''success''
          ((updateResult result c)\<lparr>currentResult := Some result, evaluateEnabled := True\<rparr>))"

text \<open>
  The methods. An exception raised inside a \<^verbatim>\<open>try\<close> block becomes the branch that
  shows the toast of the matching \<^verbatim>\<open>catch\<close>; the \<^verbatim>\<open>finally\<close> block is the outer
  \<open>hideSpinner\<close>.
\<close>

definition completeConversion :: "server \<Rightarrow> client \<Rightarrow> client" where
  "completeConversion srv c0 =
     (let c = fetch (StatusReq (sessionId c0)) (showSpinner c0) in
      hideSpinner
        (case status_r srv of
           Failed msg \<Rightarrow> showToast (''Error completing conversion: '' @ msg) ''error'' c
         | Reply data \<Rightarrow>
             if status_status data = ''success'' then
               (case status_completion_info data of
                  Some result \<Rightarrow> (show_completed result c)\<lparr>containerShown := False\<rparr>
                | None \<Rightarrow>
                    (let c1 = fetch (CompleteReq (sessionId c)) c in
                     case complete_r srv of
                       Failed msg \<Rightarrow>
                         showToast (''Error completing conversion: '' @ msg) ''error'' c1
                     | Reply data2 \<Rightarrow>
                         if complete_status data2 = ''success''
                         then (show_completed (complete_result data2) c1)
                                \<lparr>containerShown := False\<rparr>
                         else showToast (''Error completing conversion: '' @ complete_message data2)
                                ''error'' c1))
             else showToast
                    (''Error completing conversion: '' @
                       (if status_message data = [] then ''Error completing conversion''
                        else status_message data))
                    ''error'' c))"

definition data_value :: "json \<Rightarrow> string" where
  "data_value option = (if typeof_object option then stringify option else to_string option)"

definition renderDecision :: "decision \<Rightarrow> client \<Rightarrow> client" where
  "renderDecision decision c =
     c\<lparr>decisionPanel :=
         Some \<lparr> panel_decision_id = dec_id decision,
                option_values = map data_value (dec_options decision),
                store_preference = False \<rparr>,
       containerShown := True\<rparr>"

definition getNextDecision :: "server \<Rightarrow> client \<Rightarrow> client" where
  "getNextDecision srv c0 =
     (if \<not> has_session c0 then c0
      else
        (let c = fetch (DecisionsReq (sessionId c0)) c0 in
         case decisions_r srv of
           Failed msg \<Rightarrow> showToast (''Error getting next decision: '' @ msg) ''error'' c
         | Reply data \<Rightarrow>
             if decisions_status data = ''success'' \<and> 0 < length (decisions_pending data)
             then renderDecision (hd (decisions_pending data)) c
             else completeConversion srv c))"

definition startsWith :: "string \<Rightarrow> string \<Rightarrow> bool" where
  "startsWith s p = (take (length p) s = p)"

definition parseChoice :: "string \<Rightarrow> json" where
  "parseChoice choice =
     (if startsWith choice ''{'' \<or> startsWith choice ''[''
      then (case JSON_parse choice of Some v \<Rightarrow> v | None \<Rightarrow> JStr choice)
      else JStr choice)"

definition resolve_body :: "string option \<Rightarrow> string \<Rightarrow> json \<Rightarrow> bool \<Rightarrow> json" where
  "resolve_body sid decisionId parsedChoice savePreference =
     JObj [(''session_id'', (case sid of None \<Rightarrow> JNull | Some s \<Rightarrow> JStr s)),
           (''decision_id'', JStr decisionId),
           (''choice'', parsedChoice),
           (''save_preference'', JBool savePreference)]"

definition null_checked_message :: string where
  "null_checked_message = ''Cannot read properties of null (reading checked)''"

definition resolveDecision :: "string \<Rightarrow> string \<Rightarrow> server \<Rightarrow> client \<Rightarrow> client" where
  "resolveDecision decisionId choice srv c0 =
     (let c = showSpinner c0;
          parsedChoice = parseChoice choice
      in hideSpinner
        (case decisionPanel c of
           None \<Rightarrow> showToast (''Error resolving decision: '' @ null_checked_message) ''error'' c
         | Some p \<Rightarrow>
             (let savePreference = store_preference p;
                  c1 = fetch (ResolveReq (stringify
                         (resolve_body (sessionId c) decisionId parsedChoice savePreference))) c
              in case resolve_r srv of
                   Failed msg \<Rightarrow> showToast (''Error resolving decision: '' @ msg) ''error'' c1
                 | Reply data \<Rightarrow>
                     if resolve_status data = ''success'' then
                       (let c2 = c1\<lparr>conversionHistory := conversionHistory c1 @
                                      [\<lparr> h_decision_id = decisionId, h_choice = parsedChoice \<rparr>],
                                    pendingCountText := show_int (resolve_pending_decisions data)\<rparr>
                        in if resolve_session_status data = ''completed'' then
                             updateCompletionInfo
                               ((showToast ''Conversion completed successfully'' ''success''
                                   ((updateResult (resolve_result data) c2)
                                      \<lparr>containerShown := False\<rparr>))
                                  \<lparr>evaluateEnabled := True,
                                    currentResult := Some (resolve_result data)\<rparr>)
                           else getNextDecision srv c2)
                     else showToast (''Error resolving decision: '' @ resolve_message data)
                            ''error'' c1)))"

definition startInteractiveConversion :: "server \<Rightarrow> client \<Rightarrow> client" where
  "startInteractiveConversion srv c0 =
     (case currentFile c0 of
        None \<Rightarrow> showToast ''Please select a file first'' ''error'' c0
      | Some file \<Rightarrow>
          (let c = fetch (StartReq file (sourceFormat c0) (targetFormat c0))
                     ((showSpinner c0)\<lparr>panelShown := True\<rparr>)
           in hideSpinner
             (case start_r srv of
                Failed msg \<Rightarrow> (showToast msg ''error'' c)\<lparr>panelShown := False\<rparr>
              | Reply data \<Rightarrow>
                  if start_status data = ''success'' then
                    (let c1 = c\<lparr>sessionId := Some (start_session_id data),
                                sessionIdText := start_session_id data,
                                pendingCountText := show_int (start_pending_decisions data)\<rparr>
                     in showToast ''Interactive session started'' ''success''
                          (if 0 < start_pending_decisions data then getNextDecision srv c1
                           else completeConversion srv c1))
                  else (showToast (start_message data) ''error'' c)\<lparr>panelShown := False\<rparr>)))"

definition cancelSession :: "bool \<Rightarrow> server \<Rightarrow> client \<Rightarrow> client" where
  "cancelSession confirmed srv c0 =
     (if \<not> has_session c0 then c0
      else if confirmed then
        (let c = fetch (CancelReq (sessionId c0) ''User cancelled'') c0 in
         case cancel_r srv of
           Failed msg \<Rightarrow> showToast (''Error cancelling session: '' @ msg) ''error'' c
         | Reply ack \<Rightarrow>
             showToast ''Interactive session cancelled'' ''info''
               (c\<lparr>sessionId := None, pendingDecisions := [], conversionHistory := [],
                  panelShown := False, containerShown := False\<rparr>))
      else c0)"

text \<open>
  The two event handlers of \<^verbatim>\<open>setupEventListeners\<close> that feed \<open>resolveDecision\<close>:
  a click on the \<open>i\<close>-th option button, and a change of the checkbox.
\<close>

definition click_decision_option :: "nat \<Rightarrow> server \<Rightarrow> client \<Rightarrow> client" where
  "click_decision_option i srv c =
     (case decisionPanel c of
        None \<Rightarrow> c
      | Some p \<Rightarrow>
          if i < length (option_values p)
          then resolveDecision (panel_decision_id p) (option_values p ! i) srv c
          else c)"

definition change_store_preference :: "bool \<Rightarrow> client \<Rightarrow> client" where
  "change_store_preference checked c =
     (case decisionPanel c of
        None \<Rightarrow> c
      | Some p \<Rightarrow> c\<lparr>decisionPanel := Some (p\<lparr>store_preference := checked\<rparr>)\<rparr>)"

section \<open>Outcome of a resolve request\<close>

text \<open>
  \<open>resolve_failure srv\<close> is the error message when the resolve request fails or its reply
  does not report \<^verbatim>\<open>status === 'success'\<close>, and \<open>None\<close> when the reply reports success.
\<close>

definition resolve_failure :: "server \<Rightarrow> string option" where
  "resolve_failure srv =
     (case resolve_r srv of
        Failed msg \<Rightarrow> Some msg
      | Reply data \<Rightarrow> if resolve_status data = ''success'' then None
                      else Some (resolve_message data))"

section \<open>Notions used to state the properties\<close>

text \<open>
  The operations a user or the page can trigger on the converter, each with the answers the
  server gives while it runs, and a run of such operations. \<open>resolves a c\<close> holds
  when operation \<open>a\<close>, applied in state \<open>c\<close>, submits a resolution whose reply
  reports success; \<open>successes\<close> counts these along a run.
\<close>

datatype action =
    Start server
  | NextDecision server
  | Resolve string string server
  | Click nat server
  | ChangePreference bool
  | Complete server
  | Cancel bool server

fun step :: "action \<Rightarrow> client \<Rightarrow> client" where
  "step (Start srv) c = startInteractiveConversion srv c"
| "step (NextDecision srv) c = getNextDecision srv c"
| "step (Resolve decisionId choice srv) c = resolveDecision decisionId choice srv c"
| "step (Click i srv) c = click_decision_option i srv c"
| "step (ChangePreference checked) c = change_store_preference checked c"
| "step (Complete srv) c = completeConversion srv c"
| "step (Cancel confirmed srv) c = cancelSession confirmed srv c"

fun run :: "action list \<Rightarrow> client \<Rightarrow> client" where
  "run [] c = c"
| "run (a # as) c = run as (step a c)"

fun is_cancel :: "action \<Rightarrow> bool" where
  "is_cancel (Cancel confirmed srv) = True"
| "is_cancel a = False"

fun is_start :: "action \<Rightarrow> bool" where
  "is_start (Start srv) = True"
| "is_start a = False"

fun resolves :: "action \<Rightarrow> client \<Rightarrow> bool" where
  "resolves (Resolve decisionId choice srv) c =
     (decisionPanel c \<noteq> None \<and> resolve_failure srv = None)"
| "resolves (Click i srv) c =
     (case decisionPanel c of
        None \<Rightarrow> False
      | Some p \<Rightarrow> i < length (option_values p) \<and> resolve_failure srv = None)"
| "resolves a c = False"

fun successes :: "action list \<Rightarrow> client \<Rightarrow> nat" where
  "successes [] c = 0"
| "successes (a # as) c = (if resolves a c then 1 else 0) + successes as (step a c)"

text \<open>The finalize requests (\<^verbatim>\<open>POST /interactive/complete/<id>\<close>) in the request log.\<close>

definition is_finalize :: "request \<Rightarrow> bool" where
  "is_finalize req = (case req of CompleteReq sid \<Rightarrow> True | _ \<Rightarrow> False)"

definition finalize_count :: "client \<Rightarrow> nat" where
  "finalize_count c = length (filter is_finalize (requests c))"







definition member_text :: "string \<times> json \<Rightarrow> string" where
  "member_text kv = quote (fst kv) @ CHR '':'' # stringify (snd kv)"


text \<open>
  A parse of \<open>s\<close> that returned \<open>v\<close> and left \<open>rest\<close> is settled when it consumed
  at least one character and every bound at least the number of characters consumed gives
  the same result.
\<close>

definition settled :: "(nat \<Rightarrow> string \<Rightarrow> ('a \<times> string) option) \<Rightarrow> string \<Rightarrow> 'a \<Rightarrow> string \<Rightarrow> bool" where
  "settled p s v rest \<longleftrightarrow>
     length rest < length s \<and> (\<forall>g. length s - length rest \<le> g \<longrightarrow> p g s = Some (v, rest))"

section \<open>Example sessions\<close>

text \<open>
  Concrete servers and client states used to run the model: a page with a file selected,
  a decision \<open>A\<close> whose first option is structured, and servers that answer one
  endpoint or two while every other request fails.
\<close>

definition opt_staccato :: json where
  "opt_staccato = JObj [(''articulation'', JStr ''staccato''), (''voice'', JNum 2)]"

definition decision_A :: decision where
  "decision_A =
     \<lparr> dec_id = ''A'', dec_type = ''ambiguous_notation'',
       dec_description = ''Articulation of the ligature'', dec_context = ''measure 3'',
       dec_impact = None, dec_options = [opt_staccato, JStr ''keep''],
       dec_default_option = None \<rparr>"

definition offline :: server where
  "offline =
     \<lparr> start_r = Failed ''Failed to fetch'', decisions_r = Failed ''Failed to fetch'',
       resolve_r = Failed ''Failed to fetch'', status_r = Failed ''Failed to fetch'',
       complete_r = Failed ''Failed to fetch'', cancel_r = Failed ''Failed to fetch'' \<rparr>"

definition page0 :: client where
  "page0 = constructor (Some ''score.mei'') ''mei'' ''cmme''"

definition queue_A :: "decisions_reply fetched" where
  "queue_A = Reply \<lparr> decisions_status = ''success'', decisions_pending = [decision_A] \<rparr>"

definition srv_start :: "string \<Rightarrow> server" where
  "srv_start sid =
     offline\<lparr> start_r := Reply \<lparr> start_status = ''success'', start_session_id = sid,
                                 start_pending_decisions = 2, start_message = [] \<rparr>,
              decisions_r := queue_A \<rparr>"

definition srv_again :: server where
  "srv_again =
     offline\<lparr> resolve_r := Reply \<lparr> resolve_status = ''success'', resolve_pending_decisions = 1,
                                   resolve_session_status = ''active'', resolve_result = [],
                                   resolve_message = [] \<rparr>,
              decisions_r := queue_A \<rparr>"

definition srv_done :: server where
  "srv_done =
     offline\<lparr> resolve_r := Reply \<lparr> resolve_status = ''success'', resolve_pending_decisions = 0,
                                   resolve_session_status = ''completed'',
                                   resolve_result = ''<converted/>'', resolve_message = [] \<rparr> \<rparr>"

definition srv_error :: server where
  "srv_error =
     offline\<lparr> resolve_r := Reply \<lparr> resolve_status = ''error'', resolve_pending_decisions = 0,
                                   resolve_session_status = [], resolve_result = [],
                                   resolve_message = ''Unknown decision'' \<rparr> \<rparr>"

definition session_A :: client where
  "session_A = startInteractiveConversion (srv_start ''s1'') page0"


definition srv_cancel :: server where
  "srv_cancel = offline\<lparr> cancel_r := Reply () \<rparr>"

definition srv_queue_error :: server where
  "srv_queue_error =
     offline\<lparr> decisions_r := Reply \<lparr> decisions_status = ''error'', decisions_pending = [] \<rparr>,
              status_r := Reply \<lparr> status_status = ''success'', status_completion_info = None,
                                  status_message = [] \<rparr>,
              complete_r := Reply \<lparr> complete_status = ''success'',
                                    complete_result = ''<converted/>'',
                                    complete_message = [] \<rparr> \<rparr>"

definition srv_completed :: server where
  "srv_completed =
     offline\<lparr> status_r := Reply \<lparr> status_status = ''success'',
                                  status_completion_info = Some ''<converted/>'',
                                  status_message = [] \<rparr> \<rparr>"

definition session_one :: client where
  "session_one = click_decision_option 0 srv_again session_A"

definition session_done :: client where
  "session_done = click_decision_option 0 srv_done session_A"

definition session_two :: client where
  "session_two = startInteractiveConversion (srv_start ''s2'') session_done"

definition entry_A :: history_entry where
  "entry_A = \<lparr> h_decision_id = ''A'', h_choice = opt_staccato \<rparr>"

definition panel_A :: panel where
  "panel_A = \<lparr> panel_decision_id = ''A'',
               option_values = [stringify opt_staccato, ''keep''],
               store_preference = False \<rparr>"

section \<open>The codec round-trips\<close>


























lemma quote_parse:
  "quote s @ rest = dquote # concat (map escape_char s) @ dquote # rest"
  by (simp add: quote_def)












lemma member_text_eq: "(\<lambda>(k, v). quote k @ CHR '':'' # stringify v) = member_text"
  by (auto simp add: member_text_def fun_eq_iff)

lemma stringify_JObj:
  "stringify (JObj kvs) = CHR ''{'' # join_comma (map member_text kvs) @ ''}''"
  by (simp add: member_text_eq)










section \<open>The bound of the parser is never reached\<close>

text \<open>
  Every successful parse is settled, so a text that some bound accepts is accepted with the
  bound that \<open>JSON_parse\<close> uses: \<open>None\<close> always stands for a syntax error.
\<close>

lemma skip_ws_length: "length (skip_ws s) \<le> length s"
  by (simp add: skip_ws_def length_dropWhile_le)

lemma parse_string_shorter:
  "parse_string cs = Some (str, rest) \<Longrightarrow> length rest < length cs"
proof (induction cs arbitrary: str rest rule: length_induct)
  case (1 cs)
  note ih = 1(1) [rule_format]
  note res = 1(2)
  show ?case
  proof (cases cs)
    case Nil
    with res show ?thesis by simp
  next
    case cs: (Cons c cs')
    show ?thesis
    proof (cases "c = dquote")
      case True
      with res cs show ?thesis by simp
    next
      case nq: False
      show ?thesis
      proof (cases "c = bslash")
        case True
        show ?thesis
        proof (cases cs')
          case Nil
          with res nq True cs show ?thesis by simp
        next
          case (Cons e r)
          show ?thesis
          proof (cases "e = CHR ''u''")
            case u: True
            then obtain h1 h2 h3 h4 r' n s' where
              r: "r = h1 # h2 # h3 # h4 # r'"
              and p: "parse_string r' = Some (s', rest)"
              using res nq True Cons cs
              by (auto split: list.splits option.splits)
            have "length rest < length r'"
              using ih [of r' s' rest] p cs Cons r by simp
            then show ?thesis using cs Cons r by simp
          next
            case nu: False
            then obtain ch s' where p: "parse_string r = Some (s', rest)"
              using res nq True Cons cs
              by (auto split: option.splits)
            have "length rest < length r"
              using ih [of r s' rest] p cs Cons by simp
            then show ?thesis using cs Cons by simp
          qed
        qed
      next
        case False
        then obtain s' where p: "parse_string cs' = Some (s', rest)"
          using res nq cs by (auto split: option.splits if_splits)
        have "length rest < length cs'"
          using ih [of cs' s' rest] p cs by simp
        then show ?thesis using cs by simp
      qed
    qed
  qed
qed

lemma parse_frac_length: "parse_frac s = Some (b, r) \<Longrightarrow> length r \<le> length s"
  using length_dropWhile_le [of is_digit "tl s"]
  by (auto simp add: parse_frac_def split: list.splits if_splits)

lemma parse_exp_length:
  assumes a: "parse_exp s = Some (b, r)"
  shows "length r \<le> length s"
proof (cases s)
  case Nil
  with a show ?thesis
    by (simp add: parse_exp_def)
next
  case (Cons c cs)
  show ?thesis
  proof (cases "c = CHR ''e'' \<or> c = CHR ''E''")
    case False
    with a Cons show ?thesis by (auto simp add: parse_exp_def)
  next
    case True
    define r1 where "r1 = (case cs of [] \<Rightarrow> cs
                       | d # r' \<Rightarrow> if d = CHR ''+'' \<or> d = CHR ''-'' then r' else cs)"
    have "length r1 \<le> length cs"
      by (auto simp add: r1_def split: list.splits)
    moreover have "r = dropWhile is_digit r1"
      using a Cons True by (auto simp add: parse_exp_def Let_def r1_def split: if_splits)
    ultimately show ?thesis
      using Cons length_dropWhile_le [of is_digit r1] by simp
  qed
qed

lemma dropWhile_shorter: "takeWhile P xs \<noteq> [] \<Longrightarrow> length (dropWhile P xs) < length xs"
  by (cases xs) (auto simp add: le_imp_less_Suc length_dropWhile_le split: if_splits)

lemma parse_number_shorter:
  assumes "parse_number s = Some (v, rest)"
  shows "length rest < length s"
proof -
  define s1 where "s1 = (if s \<noteq> [] \<and> hd s = CHR ''-'' then tl s else s)"
  define s2 where "s2 = dropWhile is_digit s1"
  have unf: "parse_number s =
     (if takeWhile is_digit s1 = [] \<or>
         (1 < length (takeWhile is_digit s1) \<and> hd (takeWhile is_digit s1) = CHR ''0'')
      then None
      else
        (case parse_frac s2 of
           None \<Rightarrow> None
         | Some (has_frac, s3) \<Rightarrow>
             (case parse_exp s3 of
                None \<Rightarrow> None
              | Some (has_exp, s4) \<Rightarrow>
                  if has_frac \<or> has_exp
                  then Some (JFrac (take (length s - length s4) s), s4)
                  else Some (JNum (if s \<noteq> [] \<and> hd s = CHR ''-''
                                   then - int (nat_of_digits (takeWhile is_digit s1))
                                   else int (nat_of_digits (takeWhile is_digit s1))), s2))))"
    unfolding parse_number_def Let_def s1_def s2_def by (rule refl)
  have ne: "takeWhile is_digit s1 \<noteq> []"
    using assms unfolding unf by (simp split: if_splits)
  then have l2: "length s2 < length s1"
    unfolding s2_def by (rule dropWhile_shorter)
  have l1: "length s1 \<le> length s"
    by (simp add: s1_def)
  obtain b3 s3 where p3: "parse_frac s2 = Some (b3, s3)"
    using assms unfolding unf by (cases "parse_frac s2") (auto split: if_splits)
  obtain b4 s4 where p4: "parse_exp s3 = Some (b4, s4)"
    using assms p3 unfolding unf by (cases "parse_exp s3") (auto split: if_splits)
  have r: "rest = s4 \<or> rest = s2"
    using assms p3 p4 unfolding unf by (simp split: if_splits)
  have "length s4 \<le> length s2"
    using parse_frac_length [OF p3] parse_exp_length [OF p4] by simp
  then show ?thesis
    using r l1 l2 by auto
qed

lemma settledI:
  assumes "length rest < length s"
    and "\<And>g. length s - length rest \<le> Suc g \<Longrightarrow> p (Suc g) s = Some (v, rest)"
  shows "settled p s v rest"
  unfolding settled_def
proof (intro conjI allI impI)
  show "length rest < length s" by fact
next
  fix g
  assume g: "length s - length rest \<le> g"
  then obtain g' where "g = Suc g'"
    using assms(1) by (cases g) auto
  then show "p g s = Some (v, rest)"
    using assms(2) [of g'] g by simp
qed

lemma settledD:
  assumes "settled p s v rest"
  shows "length rest < length s" and "length s - length rest \<le> g \<Longrightarrow> p g s = Some (v, rest)"
  using assms by (simp_all add: settled_def)

lemma parse_value_flat:
  "c \<noteq> CHR ''{'' \<Longrightarrow> c \<noteq> CHR ''['' \<Longrightarrow>
   parse_value (Suc g) (c # cs) = parse_value (Suc f) (c # cs)"
  by simp

lemma parse_value_flat_shorter:
  assumes "c \<noteq> CHR ''{''" and "c \<noteq> CHR ''[''"
    and "parse_value (Suc f) (c # cs) = Some (v, rest)"
  shows "length rest < length (c # cs)"
proof (cases "c = dquote")
  case True
  then obtain str where "parse_string cs = Some (str, rest)"
    using assms by (auto split: option.splits)
  then show ?thesis
    using parse_string_shorter by fastforce
next
  case nq: False
  show ?thesis
  proof (cases "c = CHR ''-'' \<or> is_digit c")
    case True
    then have "parse_number (c # cs) = Some (v, rest)"
      using assms nq by simp
    then show ?thesis
      by (rule parse_number_shorter)
  next
    case False
    then have "rest = drop 4 (c # cs) \<or> rest = drop 5 (c # cs)"
      using assms nq by (simp split: if_splits)
    then show ?thesis
      by auto
  qed
qed

lemma value_step:
  assumes E: "\<And>s vs rest. parse_elements f s = Some (vs, rest) \<Longrightarrow>
                 settled parse_elements s vs rest"
    and M: "\<And>s kvs rest. parse_members f s = Some (kvs, rest) \<Longrightarrow>
                 settled parse_members s kvs rest"
    and res: "parse_value (Suc f) s = Some (v, rest)"
  shows "settled parse_value s v rest"
proof -
  obtain c cs where s: "s = c # cs"
    using res by (cases s) auto
  show ?thesis
  proof (cases "c = CHR ''{'' \<or> c = CHR ''[''")
    case False
    then have flat: "c \<noteq> CHR ''{''" "c \<noteq> CHR ''[''" by simp_all
    have "length rest < length s"
      using parse_value_flat_shorter [OF flat] res s by simp
    moreover have "\<And>g. parse_value (Suc g) s = Some (v, rest)"
      using parse_value_flat [OF flat, of _ cs f] res s by simp
    ultimately show ?thesis
      by (intro settledI)
  next
    case True
    obtain d r where sk: "skip_ws cs = d # r"
      using res s True by (cases "skip_ws cs") auto
    have lsk: "length (d # r) \<le> length cs"
      using skip_ws_length [of cs] sk by simp
    show ?thesis
    proof (cases "c = CHR ''{''")
      case obj: True
      show ?thesis
      proof (cases "d = CHR ''}''")
        case True
        then have "v = JObj []" "rest = r"
          using res s obj sk by simp_all
        moreover have "\<And>g. parse_value (Suc g) s = Some (JObj [], r)"
          using s obj sk True by simp
        ultimately show ?thesis
          using lsk s by (intro settledI) simp_all
      next
        case False
        then obtain kvs where m: "parse_members f (d # r) = Some (kvs, rest)"
          and v: "v = object_of kvs"
          using res s obj sk by (auto split: option.splits)
        note st = settledD [OF M [OF m]]
        show ?thesis
        proof (rule settledI)
          show "length rest < length s"
            using st(1) lsk s by simp
        next
          fix g
          assume "length s - length rest \<le> Suc g"
          then have "length (d # r) - length rest \<le> g"
            using lsk s by simp
          then have "parse_members g (d # r) = Some (kvs, rest)"
            by (rule st(2))
          then show "parse_value (Suc g) s = Some (v, rest)"
            using s obj sk False v by simp
        qed
      qed
    next
      case nobj: False
      then have arr: "c = CHR ''[''"
        using True by simp
      show ?thesis
      proof (cases "d = CHR '']''")
        case True
        then have "v = JArr []" "rest = r"
          using res s arr sk by simp_all
        moreover have "\<And>g. parse_value (Suc g) s = Some (JArr [], r)"
          using s arr sk True by simp
        ultimately show ?thesis
          using lsk s by (intro settledI) simp_all
      next
        case False
        then obtain vs where m: "parse_elements f (d # r) = Some (vs, rest)"
          and v: "v = JArr vs"
          using res s arr sk by (auto split: option.splits)
        note st = settledD [OF E [OF m]]
        show ?thesis
        proof (rule settledI)
          show "length rest < length s"
            using st(1) lsk s by simp
        next
          fix g
          assume "length s - length rest \<le> Suc g"
          then have "length (d # r) - length rest \<le> g"
            using lsk s by simp
          then have "parse_elements g (d # r) = Some (vs, rest)"
            by (rule st(2))
          then show "parse_value (Suc g) s = Some (v, rest)"
            using s arr sk False v by simp
        qed
      qed
    qed
  qed
qed

lemma elements_step:
  assumes V: "\<And>s v rest. parse_value f s = Some (v, rest) \<Longrightarrow> settled parse_value s v rest"
    and E: "\<And>s vs rest. parse_elements f s = Some (vs, rest) \<Longrightarrow>
                 settled parse_elements s vs rest"
    and res: "parse_elements (Suc f) s = Some (vs, rest)"
  shows "settled parse_elements s vs rest"
proof -
  obtain v r where pv: "parse_value f s = Some (v, r)"
    using res by (cases "parse_value f s") auto
  note sv = settledD [OF V [OF pv]]
  obtain d r' where sk: "skip_ws r = d # r'"
    using res pv by (cases "skip_ws r") auto
  have lsk: "length (d # r') \<le> length r"
    using skip_ws_length [of r] sk by simp
  show ?thesis
  proof (cases "d = CHR '',''")
    case True
    then obtain vs' where pe: "parse_elements f (skip_ws r') = Some (vs', rest)"
      and vs: "vs = v # vs'"
      using res pv sk by (auto split: option.splits)
    note se = settledD [OF E [OF pe]]
    have l2: "length (skip_ws r') \<le> length r'"
      by (rule skip_ws_length)
    show ?thesis
    proof (rule settledI)
      show "length rest < length s"
        using se(1) l2 lsk sv(1) by simp
    next
      fix g
      assume g: "length s - length rest \<le> Suc g"
      have "length s - length r \<le> g"
        using g se(1) l2 lsk sv(1) by simp
      then have a: "parse_value g s = Some (v, r)"
        by (rule sv(2))
      have "length (skip_ws r') - length rest \<le> g"
        using g se(1) l2 lsk sv(1) by simp
      then have b: "parse_elements g (skip_ws r') = Some (vs', rest)"
        by (rule se(2))
      show "parse_elements (Suc g) s = Some (vs, rest)"
        using a b sk True vs by simp
    qed
  next
    case False
    then have d: "d = CHR '']''" and vs: "vs = [v]" and rest: "rest = r'"
      using res pv sk by (simp_all split: if_splits)
    show ?thesis
    proof (rule settledI)
      show "length rest < length s"
        using rest lsk sv(1) by simp
    next
      fix g
      assume g: "length s - length rest \<le> Suc g"
      have "length s - length r \<le> g"
        using g rest lsk sv(1) by simp
      then have a: "parse_value g s = Some (v, r)"
        by (rule sv(2))
      show "parse_elements (Suc g) s = Some (vs, rest)"
        using a sk d vs rest by simp
    qed
  qed
qed

lemma members_step:
  assumes V: "\<And>s v rest. parse_value f s = Some (v, rest) \<Longrightarrow> settled parse_value s v rest"
    and M: "\<And>s kvs rest. parse_members f s = Some (kvs, rest) \<Longrightarrow>
                 settled parse_members s kvs rest"
    and res: "parse_members (Suc f) s = Some (kvs, rest)"
  shows "settled parse_members s kvs rest"
proof -
  obtain cs where s: "s = dquote # cs"
    using res by (cases s) (auto split: if_splits)
  obtain k r where ps: "parse_string cs = Some (k, r)"
    using res s by (cases "parse_string cs") auto
  have l0: "length r < length cs"
    using ps by (rule parse_string_shorter)
  obtain r1 where sk1: "skip_ws r = CHR '':'' # r1"
    using res s ps by (cases "skip_ws r") (auto split: if_splits)
  have l1: "length r1 < length r"
    using skip_ws_length [of r] sk1 by simp
  obtain v r2 where pv: "parse_value f (skip_ws r1) = Some (v, r2)"
    using res s ps sk1 by (cases "parse_value f (skip_ws r1)") auto
  note sv = settledD [OF V [OF pv]]
  have l2: "length (skip_ws r1) \<le> length r1"
    by (rule skip_ws_length)
  obtain d r3 where sk2: "skip_ws r2 = d # r3"
    using res s ps sk1 pv by (cases "skip_ws r2") auto
  have l3: "length (d # r3) \<le> length r2"
    using skip_ws_length [of r2] sk2 by simp
  show ?thesis
  proof (cases "d = CHR '',''")
    case True
    then obtain kvs' where pm: "parse_members f (skip_ws r3) = Some (kvs', rest)"
      and kvs: "kvs = (k, v) # kvs'"
      using res s ps sk1 pv sk2 by (auto split: option.splits)
    note sm = settledD [OF M [OF pm]]
    have l4: "length (skip_ws r3) \<le> length r3"
      by (rule skip_ws_length)
    show ?thesis
    proof (rule settledI)
      show "length rest < length s"
        using sm(1) l4 l3 sv(1) l2 l1 l0 s by simp
    next
      fix g
      assume g: "length s - length rest \<le> Suc g"
      have "length (skip_ws r1) - length r2 \<le> g"
        using g sm(1) l4 l3 sv(1) l2 l1 l0 s by simp
      then have a: "parse_value g (skip_ws r1) = Some (v, r2)"
        by (rule sv(2))
      have "length (skip_ws r3) - length rest \<le> g"
        using g sm(1) l4 l3 sv(1) l2 l1 l0 s by simp
      then have b: "parse_members g (skip_ws r3) = Some (kvs', rest)"
        by (rule sm(2))
      show "parse_members (Suc g) s = Some (kvs, rest)"
        using a b s ps sk1 sk2 True kvs by simp
    qed
  next
    case False
    then have d: "d = CHR ''}''" and kvs: "kvs = [(k, v)]" and rest: "rest = r3"
      using res s ps sk1 pv sk2 by (simp_all split: if_splits)
    show ?thesis
    proof (rule settledI)
      show "length rest < length s"
        using rest l3 sv(1) l2 l1 l0 s by simp
    next
      fix g
      assume g: "length s - length rest \<le> Suc g"
      have "length (skip_ws r1) - length r2 \<le> g"
        using g rest l3 sv(1) l2 l1 l0 s by simp
      then have a: "parse_value g (skip_ws r1) = Some (v, r2)"
        by (rule sv(2))
      show "parse_members (Suc g) s = Some (kvs, rest)"
        using a s ps sk1 sk2 d kvs rest by simp
    qed
  qed
qed

lemma parsers_settled:
  "(\<forall>s v rest. parse_value f s = Some (v, rest) \<longrightarrow> settled parse_value s v rest) \<and>
   (\<forall>s vs rest. parse_elements f s = Some (vs, rest) \<longrightarrow> settled parse_elements s vs rest) \<and>
   (\<forall>s kvs rest. parse_members f s = Some (kvs, rest) \<longrightarrow> settled parse_members s kvs rest)"
proof (induction f)
  case 0
  show ?case by simp
next
  case (Suc f)
  then have V: "\<And>s v rest. parse_value f s = Some (v, rest) \<Longrightarrow> settled parse_value s v rest"
    and E: "\<And>s vs rest. parse_elements f s = Some (vs, rest) \<Longrightarrow>
                 settled parse_elements s vs rest"
    and M: "\<And>s kvs rest. parse_members f s = Some (kvs, rest) \<Longrightarrow>
                 settled parse_members s kvs rest"
    by blast+
  show ?case
    using value_step [OF E M] elements_step [OF V E] members_step [OF V M] by blast
qed

lemma parse_value_any_bound:
  assumes "parse_value f s = Some (v, rest)" and "length s \<le> g"
  shows "parse_value g s = Some (v, rest)"
proof -
  have "settled parse_value s v rest"
    using parsers_settled [of f] assms(1) by blast
  then show ?thesis
    using assms(2) by (simp add: settled_def)
qed

lemma JSON_parse_bound_adequate:
  assumes "parse_value f (skip_ws s) = Some (v, rest)" and "skip_ws rest = []"
  shows "JSON_parse s = Some v"
proof -
  have "length (skip_ws s) \<le> Suc (length s)"
    using skip_ws_length [of s] by simp
  then have "parse_value (Suc (length s)) (skip_ws s) = Some (v, rest)"
    using assms(1) by (rule parse_value_any_bound [rotated])
  then show ?thesis
    using assms(2) by (simp add: JSON_parse_def)
qed

section \<open>Basic facts about the methods\<close>

lemmas ui_defs = showToast_def showSpinner_def hideSpinner_def updateResult_def fetch_def
  updateCompletionInfo_def show_completed_def renderDecision_def

lemma completeConversion_history [simp]:
  "conversionHistory (completeConversion srv c) = conversionHistory c"
  by (simp add: completeConversion_def ui_defs Let_def split: fetched.splits option.splits)

lemma getNextDecision_history [simp]:
  "conversionHistory (getNextDecision srv c) = conversionHistory c"
  by (simp add: getNextDecision_def ui_defs Let_def split: fetched.splits)

lemma completeConversion_requests:
  "prefix (requests c) (requests (completeConversion srv c))"
  by (simp add: completeConversion_def ui_defs Let_def split: fetched.splits option.splits)

lemma getNextDecision_requests:
  "prefix (requests c) (requests (getNextDecision srv c))"
  using completeConversion_requests [of "fetch (DecisionsReq (sessionId c)) c" srv]
  by (auto simp add: getNextDecision_def ui_defs Let_def prefix_def split: fetched.splits)

lemma completeConversion_panel [simp]:
  "decisionPanel (completeConversion srv c) = decisionPanel c"
  by (simp add: completeConversion_def ui_defs Let_def split: fetched.splits option.splits)

lemma getNextDecision_panel:
  "decisionPanel c = Some p \<Longrightarrow> \<exists>q. decisionPanel (getNextDecision srv c) = Some q"
  by (simp add: getNextDecision_def ui_defs Let_def split: fetched.splits)

lemma resolveDecision_panel:
  assumes "decisionPanel c \<noteq> None"
  shows "decisionPanel (resolveDecision d ch srv c) \<noteq> None"
proof -
  obtain p where p: "decisionPanel c = Some p"
    using assms by auto
  show ?thesis
  proof (cases "resolve_r srv")
    case (Failed msg)
    then show ?thesis
      using p by (simp add: resolveDecision_def ui_defs Let_def)
  next
    case (Reply data)
    show ?thesis
    proof (cases "resolve_status data = ''success'' \<and> resolve_session_status data \<noteq> ''completed''")
      case True
      let ?c2 = "(fetch (ResolveReq (stringify (resolve_body (sessionId c) d (parseChoice ch)
                    (store_preference p)))) (showSpinner c))
                 \<lparr>conversionHistory := conversionHistory c @
                    [\<lparr>h_decision_id = d, h_choice = parseChoice ch\<rparr>],
                  pendingCountText := show_int (resolve_pending_decisions data)\<rparr>"
      have "decisionPanel ?c2 = Some p"
        using p by (simp add: ui_defs)
      then obtain q where "decisionPanel (getNextDecision srv ?c2) = Some q"
        using getNextDecision_panel by blast
      then show ?thesis
        using p Reply True by (simp add: resolveDecision_def ui_defs Let_def)
    next
      case False
      then show ?thesis
        using p Reply by (auto simp add: resolveDecision_def ui_defs Let_def)
    qed
  qed
qed

lemma resolveDecision_history:
  "conversionHistory (resolveDecision decisionId choice srv c) =
     (if decisionPanel c \<noteq> None \<and> resolve_failure srv = None
      then conversionHistory c @ [\<lparr>h_decision_id = decisionId, h_choice = parseChoice choice\<rparr>]
      else conversionHistory c)"
  by (auto simp add: resolveDecision_def resolve_failure_def ui_defs Let_def
      split: fetched.splits if_splits option.splits)

lemma resolveDecision_requests:
  assumes "decisionPanel c = Some p"
  shows "prefix (requests c @ [ResolveReq (stringify (resolve_body (sessionId c) decisionId
            (parseChoice choice) (store_preference p)))])
           (requests (resolveDecision decisionId choice srv c))"
proof -
  let ?c1 = "fetch (ResolveReq (stringify (resolve_body (sessionId c) decisionId
            (parseChoice choice) (store_preference p)))) (showSpinner c)"
  have r1: "requests ?c1 = requests c @ [ResolveReq (stringify (resolve_body (sessionId c)
            decisionId (parseChoice choice) (store_preference p)))]"
    by (simp add: ui_defs)
  show ?thesis
  proof (cases "resolve_r srv")
    case (Failed msg)
    then show ?thesis
      using assms by (simp add: resolveDecision_def ui_defs Let_def)
  next
    case (Reply data)
    show ?thesis
    proof (cases "resolve_status data = ''success'' \<and> resolve_session_status data \<noteq> ''completed''")
      case True
      let ?c2 = "?c1\<lparr>conversionHistory := conversionHistory ?c1 @
                   [\<lparr>h_decision_id = decisionId, h_choice = parseChoice choice\<rparr>],
                 pendingCountText := show_int (resolve_pending_decisions data)\<rparr>"
      have "prefix (requests ?c2) (requests (getNextDecision srv ?c2))"
        by (rule getNextDecision_requests)
      moreover have "requests ?c2 = requests ?c1" by simp
      moreover have "requests (resolveDecision decisionId choice srv c) =
          requests (getNextDecision srv ?c2)"
        using assms Reply True by (simp add: resolveDecision_def Let_def ui_defs)
      ultimately show ?thesis
        using r1 by simp
    next
      case False
      then show ?thesis
        using assms Reply by (auto simp add: resolveDecision_def ui_defs Let_def)
    qed
  qed
qed

lemma click_history:
  "conversionHistory (click_decision_option i srv c) =
     (if resolves (Click i srv) c
      then conversionHistory c @
             [\<lparr>h_decision_id = panel_decision_id (the (decisionPanel c)),
               h_choice = parseChoice (option_values (the (decisionPanel c)) ! i)\<rparr>]
      else conversionHistory c)"
  by (auto simp add: click_decision_option_def resolveDecision_history split: option.splits)

lemma startInteractiveConversion_history [simp]:
  "conversionHistory (startInteractiveConversion srv c) = conversionHistory c"
  by (simp add: startInteractiveConversion_def ui_defs Let_def
      split: fetched.splits option.splits)

lemma change_store_preference_history [simp]:
  "conversionHistory (change_store_preference b c) = conversionHistory c"
  by (simp add: change_store_preference_def split: option.splits)

lemma step_history_length:
  "\<not> is_cancel a \<Longrightarrow>
   length (conversionHistory (step a c)) =
     length (conversionHistory c) + (if resolves a c then 1 else 0)"
  by (cases a) (simp_all add: resolveDecision_history click_history)

lemma run_history_length:
  "list_all (\<lambda>a. \<not> is_cancel a) as \<Longrightarrow>
   length (conversionHistory (run as c)) = length (conversionHistory c) + successes as c"
proof (induction as arbitrary: c)
  case Nil
  then show ?case by simp
next
  case (Cons a as)
  then have "length (conversionHistory (run as (step a c))) =
      length (conversionHistory (step a c)) + successes as (step a c)"
    by simp
  then show ?case
    using Cons.prems by (simp add: step_history_length)
qed

lemma step_history_prefix:
  "\<not> is_cancel a \<Longrightarrow> prefix (conversionHistory c) (conversionHistory (step a c))"
  by (cases a) (simp_all add: resolveDecision_history click_history)

lemma run_history_prefix:
  "list_all (\<lambda>a. \<not> is_cancel a) as \<Longrightarrow>
   prefix (conversionHistory c) (conversionHistory (run as c))"
proof (induction as arbitrary: c)
  case Nil
  then show ?case by simp
next
  case (Cons a as)
  then have "prefix (conversionHistory (step a c)) (conversionHistory (run as (step a c)))"
    by simp
  moreover have "prefix (conversionHistory c) (conversionHistory (step a c))"
    using Cons.prems by (simp add: step_history_prefix)
  ultimately show ?case
    by (auto intro: prefix_order.trans)
qed

lemma session_A_facts:
  "sessionId session_A = Some ''s1''" "conversionHistory session_A = []"
  "decisionPanel session_A = Some panel_A" "has_session session_A"
  "toasts session_A = [(''Interactive session started'', ''success'')]"
  "pendingCountText session_A = ''2''"
  "requests session_A = [StartReq ''score.mei'' ''mei'' ''cmme'', DecisionsReq (Some ''s1'')]"
  by code_simp+

section \<open>History and resolutions\<close>

text \<open>
  Claim C1, as amended. Every call of \<open>resolveDecision\<close> appends exactly one entry, the
  decision id with the parsed choice, when a decision is rendered and the resolve reply
  reports success, and leaves the history as it was in every other case. Over every run of
  operations within a session (no start, no cancel) the history therefore grows by the
  number of resolutions submitted with success. The method never looks a decision id up in
  the history.
\<close>

theorem resolve_appends_once:
  "conversionHistory (resolveDecision decisionId choice srv c) =
     (if decisionPanel c \<noteq> None \<and> resolve_failure srv = None
      then conversionHistory c @ [\<lparr>h_decision_id = decisionId, h_choice = parseChoice choice\<rparr>]
      else conversionHistory c) \<and>
   (list_all (\<lambda>a. \<not> is_cancel a \<and> \<not> is_start a) as \<longrightarrow>
      length (conversionHistory (run as c)) = length (conversionHistory c) + successes as c)"
proof -
  have "list_all (\<lambda>a. \<not> is_cancel a) as"
    if "list_all (\<lambda>a. \<not> is_cancel a \<and> \<not> is_start a) as"
    using that by (simp add: list_all_iff)
  then show ?thesis
    by (simp add: resolveDecision_history run_history_length)
qed

theorem resolve_appends_once_witness:
  "decisionPanel session_A \<noteq> None \<and>
   conversionHistory (resolveDecision ''A'' ''keep'' srv_again session_A) =
     [\<lparr>h_decision_id = ''A'', h_choice = JStr ''keep''\<rparr>] \<and>
   conversionHistory (resolveDecision ''A'' ''keep'' srv_error session_A) = [] \<and>
   successes [Click 0 srv_again, Resolve ''A'' ''keep'' srv_error, NextDecision srv_again,
              Click 0 srv_done] session_A = 2 \<and>
   length (conversionHistory
     (run [Click 0 srv_again, Resolve ''A'' ''keep'' srv_error, NextDecision srv_again,
           Click 0 srv_done] session_A)) = 2"
proof -
  define ops where "ops = [Click 0 srv_again, Resolve ''A'' ''keep'' srv_error,
    NextDecision srv_again, Click 0 srv_done]"
  have ok: "resolve_failure srv_again = None"
    and bad: "resolve_failure srv_error = Some ''Unknown decision''"
    and raw: "parseChoice ''keep'' = JStr ''keep''"
    by code_simp+
  have n: "successes ops session_A = 2"
    unfolding ops_def by code_simp
  have within: "list_all (\<lambda>a. \<not> is_cancel a \<and> \<not> is_start a) ops"
    by (simp add: ops_def)
  have "length (conversionHistory (run ops session_A)) =
      length (conversionHistory session_A) + successes ops session_A"
    using resolve_appends_once [where c = session_A and as = ops] within by blast
  then have len: "length (conversionHistory (run ops session_A)) = 2"
    by (simp add: n session_A_facts)
  have one: "conversionHistory (resolveDecision ''A'' ''keep'' srv_again session_A) =
     [\<lparr>h_decision_id = ''A'', h_choice = JStr ''keep''\<rparr>]"
    using resolve_appends_once [where decisionId = "''A''" and choice = "''keep''"
        and srv = srv_again and c = session_A and as = "[]"]
    by (simp add: session_A_facts ok raw)
  have none: "conversionHistory (resolveDecision ''A'' ''keep'' srv_error session_A) = []"
    using resolve_appends_once [where decisionId = "''A''" and choice = "''keep''"
        and srv = srv_error and c = session_A and as = "[]"]
    by (simp add: session_A_facts bad)
  show ?thesis
    using len n one none unfolding ops_def by (simp only: session_A_facts simp_thms) simp
qed

text \<open>
  Claim C1 as stated fails. The server may offer decision \<open>A\<close> again after it was
  resolved; the second click is submitted and recorded, and the id \<open>A\<close> is in the
  history twice.
\<close>

theorem duplicate_decision_id_counterexample:
  "conversionHistory session_one = [entry_A] \<and>
   conversionHistory (click_decision_option 0 srv_again session_one) = [entry_A, entry_A] \<and>
   \<not> distinct (map h_decision_id
        (conversionHistory (click_decision_option 0 srv_again session_one)))"
  by code_simp

section \<open>Operations after completion\<close>

text \<open>
  Claim C2, as amended. The client keeps no session status. A resolve whose reply reports
  the session completed records the entry, shows the pending count and the result, enables
  the buttons, announces success, fills the progress section and hides the decision
  container; it changes nothing else, so the session id and the rendered decision stay in
  place. A later \<open>getNextDecision\<close> therefore sends its request for the decision queue
  and a later \<open>resolveDecision\<close> sends its resolve request; neither call is rejected.
  \<open>getNextDecision\<close> returns without a request only when no session id is set.
\<close>

theorem completed_session_still_operable:
  assumes "has_session c" and "decisionPanel c = Some p"
    and "resolve_r srv = Reply data" and "resolve_status data = ''success''"
    and "resolve_session_status data = ''completed''"
  shows "prefix (requests (resolveDecision d ch srv c) @ [DecisionsReq (sessionId c)])
           (requests (getNextDecision srv' (resolveDecision d ch srv c))) \<and>
         prefix (requests (resolveDecision d ch srv c) @
                   [ResolveReq (stringify (resolve_body (sessionId c) d' (parseChoice ch')
                      (store_preference p)))])
           (requests (resolveDecision d' ch' srv' (resolveDecision d ch srv c))) \<and>
         (\<forall>c0. \<not> has_session c0 \<longrightarrow> getNextDecision srv' c0 = c0) \<and>
         resolveDecision d ch srv c =
           c\<lparr>spinnerShown := False,
             requests := requests c @
               [ResolveReq (stringify (resolve_body (sessionId c) d (parseChoice ch)
                  (store_preference p)))],
             conversionHistory := conversionHistory c @
               [\<lparr>h_decision_id = d, h_choice = parseChoice ch\<rparr>],
             pendingCountText := show_int (resolve_pending_decisions data),
             outputText := resolve_result data,
             exportEnabled := resolve_result data \<noteq> [],
             evaluateEnabled := True,
             containerShown := False,
             toasts := toasts c @ [(''Conversion completed successfully'', ''success'')],
             currentResult := Some (resolve_result data),
             progressCount := Some (Suc (length (conversionHistory c)))\<rparr> \<and>
         sessionId (resolveDecision d ch srv c) = sessionId c \<and>
         has_session (resolveDecision d ch srv c) \<and>
         decisionPanel (resolveDecision d ch srv c) = Some p \<and>
         containerShown (resolveDecision d ch srv c) = False"
proof -
  let ?c1 = "resolveDecision d ch srv c"
  have whole: "?c1 =
           c\<lparr>spinnerShown := False,
             requests := requests c @
               [ResolveReq (stringify (resolve_body (sessionId c) d (parseChoice ch)
                  (store_preference p)))],
             conversionHistory := conversionHistory c @
               [\<lparr>h_decision_id = d, h_choice = parseChoice ch\<rparr>],
             pendingCountText := show_int (resolve_pending_decisions data),
             outputText := resolve_result data,
             exportEnabled := resolve_result data \<noteq> [],
             evaluateEnabled := True,
             containerShown := False,
             toasts := toasts c @ [(''Conversion completed successfully'', ''success'')],
             currentResult := Some (resolve_result data),
             progressCount := Some (Suc (length (conversionHistory c)))\<rparr>"
    using assms by (simp add: resolveDecision_def ui_defs Let_def)
  have shown: "containerShown ?c1 = False"
    by (subst whole) simp
  have sid: "sessionId ?c1 = sessionId c" and panel: "decisionPanel ?c1 = Some p"
    using assms by (simp_all add: resolveDecision_def ui_defs Let_def)
  then have hs: "has_session ?c1"
    using assms(1) by (simp add: has_session_def)
  have "prefix (requests (fetch (DecisionsReq (sessionId ?c1)) ?c1))
          (requests (getNextDecision srv' ?c1))"
    using hs completeConversion_requests [of "fetch (DecisionsReq (sessionId ?c1)) ?c1" srv']
    by (auto simp add: getNextDecision_def Let_def ui_defs split: fetched.splits)
  then have a: "prefix (requests ?c1 @ [DecisionsReq (sessionId c)])
      (requests (getNextDecision srv' ?c1))"
    by (simp add: fetch_def sid)
  have b: "prefix (requests ?c1 @
                   [ResolveReq (stringify (resolve_body (sessionId c) d' (parseChoice ch')
                      (store_preference p)))])
           (requests (resolveDecision d' ch' srv' ?c1))"
    using resolveDecision_requests [OF panel, of d' ch' srv'] by (simp add: sid)
  have c: "\<forall>c0. \<not> has_session c0 \<longrightarrow> getNextDecision srv' c0 = c0"
    by (simp add: getNextDecision_def)
  show ?thesis
    using a b c whole sid hs panel shown by (intro conjI)
qed

theorem completed_session_still_operable_witness:
  "has_session session_A \<and> decisionPanel session_A = Some panel_A \<and>
   prefix (requests (resolveDecision ''A'' ''keep'' srv_done session_A) @
             [DecisionsReq (Some ''s1'')])
     (requests (getNextDecision srv_again
        (resolveDecision ''A'' ''keep'' srv_done session_A))) \<and>
   prefix (requests (resolveDecision ''A'' ''keep'' srv_done session_A) @
             [ResolveReq (stringify (resolve_body (Some ''s1'') ''A'' (JStr ''keep'') False))])
     (requests (resolveDecision ''A'' ''keep'' srv_again
        (resolveDecision ''A'' ''keep'' srv_done session_A))) \<and>
   getNextDecision srv_again page0 = page0 \<and>
   sessionId (resolveDecision ''A'' ''keep'' srv_done session_A) = Some ''s1'' \<and>
   decisionPanel (resolveDecision ''A'' ''keep'' srv_done session_A) = Some panel_A \<and>
   containerShown (resolveDecision ''A'' ''keep'' srv_done session_A) = False \<and>
   currentResult (resolveDecision ''A'' ''keep'' srv_done session_A) = Some ''<converted/>''"
proof -
  have r: "resolve_r srv_done =
      Reply \<lparr> resolve_status = ''success'', resolve_pending_decisions = 0,
              resolve_session_status = ''completed'', resolve_result = ''<converted/>'',
              resolve_message = [] \<rparr>"
    by (simp add: srv_done_def offline_def)
  have raw: "parseChoice ''keep'' = JStr ''keep''" and sp: "store_preference panel_A = False"
    and n: "\<not> has_session page0"
    by code_simp+
  have st: "resolve_status \<lparr> resolve_status = ''success'', resolve_pending_decisions = 0,
              resolve_session_status = ''completed'', resolve_result = ''<converted/>'',
              resolve_message = [] \<rparr> = ''success''"
    "resolve_session_status \<lparr> resolve_status = ''success'', resolve_pending_decisions = 0,
              resolve_session_status = ''completed'', resolve_result = ''<converted/>'',
              resolve_message = [] \<rparr> = ''completed''"
    by simp_all
  note t = completed_session_still_operable [OF session_A_facts(4) session_A_facts(3) r st,
        where d = "''A''" and ch = "''keep''" and srv' = srv_again and d' = "''A''"
          and ch' = "''keep''"]
  have q: "resolve_result \<lparr> resolve_status = ''success'', resolve_pending_decisions = 0,
              resolve_session_status = ''completed'', resolve_result = ''<converted/>'',
              resolve_message = [] \<rparr> = ''<converted/>''"
    by simp
  note t1 = t [THEN conjunct1]
  note t2 = t [THEN conjunct2, THEN conjunct1]
  note t3 = t [THEN conjunct2, THEN conjunct2, THEN conjunct1]
  note t4 = t [THEN conjunct2, THEN conjunct2, THEN conjunct2, THEN conjunct1]
  note t5 = t [THEN conjunct2, THEN conjunct2, THEN conjunct2, THEN conjunct2]
  have res: "currentResult (resolveDecision ''A'' ''keep'' srv_done session_A) =
      Some ''<converted/>''"
    by (subst t4) (simp add: q)
  show ?thesis
    using n t1 t2 t3 t5 res by (simp add: session_A_facts raw sp)
qed

text \<open>
  Claim C2 as stated fails: on the session completed by the first click, the next
  \<open>getNextDecision\<close> and the next \<open>resolveDecision\<close> both reach the server, and the
  second resolution is recorded.
\<close>

theorem terminal_session_counterexample:
  "currentResult session_done = Some ''<converted/>'' \<and>
   requests (getNextDecision srv_again session_done) =
     requests session_done @ [DecisionsReq (Some ''s1'')] \<and>
   requests (resolveDecision ''A'' ''keep'' srv_done session_done) =
     requests session_done @
       [ResolveReq (stringify (resolve_body (Some ''s1'') ''A'' (JStr ''keep'') False))] \<and>
   conversionHistory (resolveDecision ''A'' ''keep'' srv_done session_done) =
     [entry_A, \<lparr> h_decision_id = ''A'', h_choice = JStr ''keep'' \<rparr>]"
  by code_simp

section \<open>The decision queue\<close>

text \<open>
  Claim C3 says that the empty queue is told apart from a failure and that a failure is
  surfaced as an error. The code does so for a request that fails, which ends in an error
  toast, but not for a reply that reports an error: with the session of the example, the
  reply \<^verbatim>\<open>{status: 'error'}\<close> makes \<open>getNextDecision\<close> go on to
  \<open>completeConversion\<close>, which asks for the status and, finding no completion result,
  finalizes the session and announces success. No error is shown.
\<close>

theorem failed_queue_fetch_completes:
  "requests (getNextDecision srv_queue_error session_A) =
     requests session_A @
       [DecisionsReq (Some ''s1''), StatusReq (Some ''s1''), CompleteReq (Some ''s1'')] \<and>
   toasts (getNextDecision srv_queue_error session_A) =
     toasts session_A @ [(''Conversion completed successfully'', ''success'')] \<and>
   currentResult (getNextDecision srv_queue_error session_A) = Some ''<converted/>'' \<and>
   toasts (getNextDecision offline session_A) =
     toasts session_A @ [(''Error getting next decision: Failed to fetch'', ''error'')]"
  by code_simp

section \<open>Cancelling\<close>

text \<open>
  Claim C4, as amended. \<open>cancelSession\<close> changes nothing when no session id is set or
  when the user declines the confirmation. It does not ask whether the session has
  completed: on the state left by a resolve whose reply reports the session completed, a
  confirmed cancel sends the cancel request and, when the request succeeds, clears the
  session id, the pending decisions and the history and hides both panels; when the
  request fails it only adds an error toast.
\<close>

theorem cancelSession_ignores_completion:
  assumes "has_session c" and "decisionPanel c = Some p"
    and "resolve_r srv = Reply data" and "resolve_status data = ''success''"
    and "resolve_session_status data = ''completed''"
    and "c1 = resolveDecision d ch srv c"
  shows "cancelSession False srv' c1 = c1 \<and>
         (cancel_r srv' = Reply () \<longrightarrow>
            cancelSession True srv' c1 =
              c1\<lparr>sessionId := None, pendingDecisions := [], conversionHistory := [],
                 panelShown := False, containerShown := False,
                 toasts := toasts c1 @ [(''Interactive session cancelled'', ''info'')],
                 requests := requests c1 @ [CancelReq (sessionId c) ''User cancelled'']\<rparr>) \<and>
         (\<forall>msg. cancel_r srv' = Failed msg \<longrightarrow>
            cancelSession True srv' c1 =
              c1\<lparr>toasts := toasts c1 @ [(''Error cancelling session: '' @ msg, ''error'')],
                 requests := requests c1 @ [CancelReq (sessionId c) ''User cancelled'']\<rparr>) \<and>
         (\<forall>c0 confirmed. \<not> has_session c0 \<longrightarrow> cancelSession confirmed srv' c0 = c0)"
proof -
  have sid: "sessionId c1 = sessionId c"
    using assms by (simp add: resolveDecision_def ui_defs Let_def)
  then have hs: "has_session c1"
    using assms(1) by (simp add: has_session_def)
  show ?thesis
    using hs sid by (simp add: cancelSession_def ui_defs Let_def)
qed

theorem cancelSession_ignores_completion_witness:
  "has_session session_A \<and> decisionPanel session_A = Some panel_A \<and>
   cancel_r srv_cancel = Reply () \<and>
   cancelSession False srv_cancel (resolveDecision ''A'' ''keep'' srv_done session_A) =
     resolveDecision ''A'' ''keep'' srv_done session_A \<and>
   sessionId (cancelSession True srv_cancel
     (resolveDecision ''A'' ''keep'' srv_done session_A)) = None \<and>
   conversionHistory (cancelSession True srv_cancel
     (resolveDecision ''A'' ''keep'' srv_done session_A)) = [] \<and>
   cancelSession True srv_cancel page0 = page0"
proof -
  have r: "resolve_r srv_done =
      Reply \<lparr> resolve_status = ''success'', resolve_pending_decisions = 0,
              resolve_session_status = ''completed'', resolve_result = ''<converted/>'',
              resolve_message = [] \<rparr>"
    by (simp add: srv_done_def offline_def)
  have k: "cancel_r srv_cancel = Reply ()" and n: "\<not> has_session page0"
    by code_simp+
  let ?c1 = "resolveDecision ''A'' ''keep'' srv_done session_A"
  note t = cancelSession_ignores_completion [OF session_A_facts(4) session_A_facts(3) r _ _ refl,
      where d = "''A''" and ch = "''keep''" and srv' = srv_cancel]
  have "cancelSession False srv_cancel ?c1 = ?c1"
    using t by simp
  moreover have "cancelSession True srv_cancel ?c1 =
      ?c1\<lparr>sessionId := None, pendingDecisions := [], conversionHistory := [],
          panelShown := False, containerShown := False,
          toasts := toasts ?c1 @ [(''Interactive session cancelled'', ''info'')],
          requests := requests ?c1 @ [CancelReq (sessionId session_A) ''User cancelled'']\<rparr>"
    using t k by simp
  moreover have "cancelSession True srv_cancel page0 = page0"
    using t n by simp
  ultimately show ?thesis
    by (simp add: session_A_facts k)
qed

text \<open>
  Claim C4 as stated fails: the session of the example has completed with one recorded
  decision; a confirmed cancel on it is sent to the server and empties the local state.
\<close>

theorem cancel_completed_counterexample:
  "conversionHistory session_done = [entry_A] \<and>
   sessionId session_done = Some ''s1'' \<and>
   currentResult session_done = Some ''<converted/>'' \<and>
   cancelSession True srv_cancel session_done \<noteq> session_done \<and>
   sessionId (cancelSession True srv_cancel session_done) = None \<and>
   conversionHistory (cancelSession True srv_cancel session_done) = [] \<and>
   requests (cancelSession True srv_cancel session_done) =
     requests session_done @ [CancelReq (Some ''s1'') ''User cancelled'']"
  by code_simp

section \<open>The history ledger\<close>

text \<open>
  Claim C5, as amended. Starting a session, fetching the next decision, completing the
  conversion and changing the checkbox leave the history as it is; a resolve, by call or
  by click, keeps every earlier entry in place and unchanged (the old history is a prefix
  of the new one) and appends at most one entry; hence every run of operations without a
  cancel keeps the earlier history as a prefix. \<open>cancelSession\<close> is the exception: a
  confirmed cancel whose request succeeds empties the history, and any other cancel leaves
  it as it is.
\<close>

theorem history_kept_except_by_cancel:
  "conversionHistory (startInteractiveConversion srv c) = conversionHistory c \<and>
   conversionHistory (getNextDecision srv c) = conversionHistory c \<and>
   conversionHistory (completeConversion srv c) = conversionHistory c \<and>
   conversionHistory (change_store_preference b c) = conversionHistory c \<and>
   prefix (conversionHistory c) (conversionHistory (resolveDecision d ch srv c)) \<and>
   prefix (conversionHistory c) (conversionHistory (click_decision_option i srv c)) \<and>
   conversionHistory (cancelSession confirmed srv c) =
     (if has_session c \<and> confirmed \<and> cancel_r srv = Reply () then []
      else conversionHistory c) \<and>
   length (conversionHistory (resolveDecision d ch srv c)) \<le>
     Suc (length (conversionHistory c)) \<and>
   length (conversionHistory (click_decision_option i srv c)) \<le>
     Suc (length (conversionHistory c)) \<and>
   (list_all (\<lambda>a. \<not> is_cancel a) as \<longrightarrow>
      prefix (conversionHistory c) (conversionHistory (run as c)))"
proof -
  have l: "\<And>d ch. length (conversionHistory (resolveDecision d ch srv c)) \<le>
      Suc (length (conversionHistory c))"
    by (simp add: resolveDecision_history)
  have l': "length (conversionHistory (click_decision_option i srv c)) \<le>
      Suc (length (conversionHistory c))"
    using l by (simp add: click_decision_option_def split: option.splits)
  have "conversionHistory (startInteractiveConversion srv c) = conversionHistory c"
    by simp
  moreover have r: "\<And>d ch. prefix (conversionHistory c)
      (conversionHistory (resolveDecision d ch srv c))"
    by (simp add: resolveDecision_history)
  moreover have "prefix (conversionHistory c) (conversionHistory (click_decision_option i srv c))"
    using r by (simp add: click_decision_option_def split: option.splits)
  moreover have "conversionHistory (cancelSession confirmed srv c) =
     (if has_session c \<and> confirmed \<and> cancel_r srv = Reply () then []
      else conversionHistory c)"
    by (simp add: cancelSession_def ui_defs Let_def split: fetched.splits)
  ultimately show ?thesis
    using l l' by (simp add: run_history_prefix)
qed

theorem history_kept_except_by_cancel_witness:
  "conversionHistory (startInteractiveConversion (srv_start ''s2'') session_one) = [entry_A] \<and>
   prefix [entry_A] (conversionHistory (resolveDecision ''A'' ''keep'' srv_again session_one)) \<and>
   conversionHistory (cancelSession False srv_cancel session_one) = [entry_A] \<and>
   conversionHistory (cancelSession True offline session_one) = [entry_A] \<and>
   prefix [entry_A]
     (conversionHistory (run [Click 0 srv_again, ChangePreference True, Click 1 srv_done,
        Start (srv_start ''s2''), Complete srv_completed] session_one))"
proof -
  define ops where "ops = [Click 0 srv_again, ChangePreference True, Click 1 srv_done,
    Start (srv_start ''s2''), Complete srv_completed]"
  have h: "conversionHistory session_one = [entry_A]" "has_session session_one"
    "cancel_r offline \<noteq> Reply ()"
    by code_simp+
  have nc: "list_all (\<lambda>a. \<not> is_cancel a) ops"
    by (simp add: ops_def)
  have a: "conversionHistory (startInteractiveConversion (srv_start ''s2'') session_one) =
      [entry_A]"
    using history_kept_except_by_cancel [where srv = "srv_start ''s2''" and c = session_one]
    by (simp add: h)
  have b: "prefix [entry_A]
      (conversionHistory (resolveDecision ''A'' ''keep'' srv_again session_one))"
    using history_kept_except_by_cancel [where srv = srv_again and c = session_one
        and d = "''A''" and ch = "''keep''"]
    by (simp add: h)
  have c: "conversionHistory (cancelSession False srv_cancel session_one) = [entry_A]"
    using history_kept_except_by_cancel [where srv = srv_cancel and c = session_one
        and confirmed = False]
    by (simp add: h)
  have d: "conversionHistory (cancelSession True offline session_one) = [entry_A]"
    using history_kept_except_by_cancel [where srv = offline and c = session_one
        and confirmed = True]
    by (simp add: h)
  have e: "prefix [entry_A] (conversionHistory (run ops session_one))"
    using history_kept_except_by_cancel [where c = session_one and as = ops] nc
    by (simp only: h(1))
  show ?thesis
    using a b c d e unfolding ops_def by blast
qed

text \<open>
  Claim C5 as stated fails: a confirmed cancel on a session with one recorded decision
  removes the entry.
\<close>

theorem cancel_clears_history_counterexample:
  "conversionHistory session_one = [entry_A] \<and>
   has_session session_one \<and>
   conversionHistory (cancelSession True srv_cancel session_one) = []"
  by code_simp

section \<open>Completion\<close>

lemma completeConversion_short_circuit:
  assumes "status_r srv = Reply data" and "status_status data = ''success''"
    and "status_completion_info data = Some result"
  shows "completeConversion srv c =
         c\<lparr>requests := requests c @ [StatusReq (sessionId c)],
           toasts := toasts c @ [(''Conversion completed successfully'', ''success'')],
           outputText := result, exportEnabled := result \<noteq> [], evaluateEnabled := True,
           currentResult := Some result,
           progressCount := Some (length (conversionHistory c)),
           containerShown := False, spinnerShown := False\<rparr>"
  using assms by (simp add: completeConversion_def ui_defs Let_def)

lemma finalize_count_le:
  "finalize_count (completeConversion srv c) \<le> Suc (finalize_count c)"
  by (simp add: completeConversion_def ui_defs Let_def finalize_count_def is_finalize_def
      split: fetched.splits option.splits)

text \<open>
  Claim C6. When the status reply carries a completion result, \<open>completeConversion\<close>
  sends the status request only and delivers that result (to the output and to
  \<^verbatim>\<open>window.converter.currentResult\<close>). Called twice on such a session it sends two
  status requests and no finalize request, and both calls deliver the same result. When
  the first of two calls ran against any other answers of the server, the two calls
  together still add at most one finalize request.
\<close>

theorem completeConversion_idempotent:
  assumes "status_r srv = Reply data" and "status_status data = ''success''"
    and "status_completion_info data = Some result"
  shows "requests (completeConversion srv c) = requests c @ [StatusReq (sessionId c)] \<and>
         currentResult (completeConversion srv c) = Some result \<and>
         outputText (completeConversion srv c) = result \<and>
         requests (completeConversion srv (completeConversion srv c)) =
           requests c @ [StatusReq (sessionId c), StatusReq (sessionId c)] \<and>
         currentResult (completeConversion srv (completeConversion srv c)) = Some result \<and>
         outputText (completeConversion srv (completeConversion srv c)) = result \<and>
         finalize_count (completeConversion srv (completeConversion srv1 c)) \<le>
           Suc (finalize_count c) \<and>
         currentResult (completeConversion srv (completeConversion srv1 c)) = Some result"
proof -
  have "finalize_count (completeConversion srv (completeConversion srv1 c)) =
      finalize_count (completeConversion srv1 c)"
    by (simp add: completeConversion_short_circuit [OF assms] finalize_count_def
        is_finalize_def)
  then have "finalize_count (completeConversion srv (completeConversion srv1 c)) \<le>
      Suc (finalize_count c)"
    using finalize_count_le [of srv1 c] by simp
  then show ?thesis
    by (simp add: completeConversion_short_circuit [OF assms])
qed

theorem completeConversion_idempotent_witness:
  "status_r srv_completed =
     Reply \<lparr> status_status = ''success'', status_completion_info = Some ''<converted/>'',
             status_message = [] \<rparr> \<and>
   requests (completeConversion srv_completed (completeConversion srv_completed session_A)) =
     requests session_A @ [StatusReq (Some ''s1''), StatusReq (Some ''s1'')] \<and>
   currentResult (completeConversion srv_completed session_A) = Some ''<converted/>'' \<and>
   currentResult (completeConversion srv_completed
     (completeConversion srv_completed session_A)) = Some ''<converted/>'' \<and>
   finalize_count (completeConversion srv_completed
     (completeConversion srv_queue_error session_A)) \<le> 1"
proof -
  have s: "status_r srv_completed =
     Reply \<lparr> status_status = ''success'', status_completion_info = Some ''<converted/>'',
             status_message = [] \<rparr>"
    by (simp add: srv_completed_def offline_def)
  have z: "finalize_count session_A = 0"
    by code_simp
  show ?thesis
    using completeConversion_idempotent [OF s, where result = "''<converted/>''"
        and c = session_A and ?srv1.0 = srv_queue_error]
    by (simp add: s z session_A_facts)
qed

section \<open>Structured choices\<close>






section \<open>Failed resolutions\<close>

text \<open>
  Claim C8. A failed resolve is not applied and not retried: when the resolve request fails
  or its reply reports an error, the state after \<open>resolveDecision\<close> is the state before
  with the spinner hidden, one error toast carrying the message, and exactly one resolve
  request added to the log. History, session id, pending-count text, the rendered decision
  and every other field are unchanged.
\<close>

theorem failed_resolve_not_applied:
  assumes "resolve_failure srv = Some msg" and "decisionPanel c = Some p"
  shows "resolveDecision decisionId choice srv c =
         c\<lparr>spinnerShown := False,
           toasts := toasts c @ [(''Error resolving decision: '' @ msg, ''error'')],
           requests := requests c @
             [ResolveReq (stringify (resolve_body (sessionId c) decisionId
                (parseChoice choice) (store_preference p)))]\<rparr>"
  using assms
  by (auto simp add: resolveDecision_def resolve_failure_def ui_defs Let_def
      split: fetched.splits if_splits)

theorem failed_resolve_not_applied_witness:
  "resolve_failure srv_error = Some ''Unknown decision'' \<and>
   resolve_failure offline = Some ''Failed to fetch'' \<and>
   decisionPanel session_A = Some panel_A \<and>
   conversionHistory (resolveDecision ''A'' ''keep'' srv_error session_A) = [] \<and>
   sessionId (resolveDecision ''A'' ''keep'' srv_error session_A) = Some ''s1'' \<and>
   pendingCountText (resolveDecision ''A'' ''keep'' srv_error session_A) = ''2'' \<and>
   toasts (resolveDecision ''A'' ''keep'' srv_error session_A) =
     [(''Interactive session started'', ''success''),
      (''Error resolving decision: Unknown decision'', ''error'')] \<and>
   toasts (resolveDecision ''A'' ''keep'' offline session_A) =
     [(''Interactive session started'', ''success''),
      (''Error resolving decision: Failed to fetch'', ''error'')] \<and>
   length (requests (resolveDecision ''A'' ''keep'' srv_error session_A)) =
     Suc (length (requests session_A))"
proof -
  have f: "resolve_failure srv_error = Some ''Unknown decision''"
    and g: "resolve_failure offline = Some ''Failed to fetch''"
    by code_simp+
  show ?thesis
    using failed_resolve_not_applied [OF f session_A_facts(3), where decisionId = "''A''"
        and choice = "''keep''"]
      failed_resolve_not_applied [OF g session_A_facts(3), where decisionId = "''A''"
        and choice = "''keep''"]
    by (simp add: f g session_A_facts)
qed

section \<open>Choices that are not JSON\<close>



section \<open>A second session\<close>

text \<open>
  Claim C9 says that a second session begins with an empty history. In the code
  \<open>startInteractiveConversion\<close> replaces the session id and does not reset the history:
  after the session \<open>s1\<close> of the example has completed with one decision, a second start
  yields session \<open>s2\<close> whose history already holds the entry of \<open>s1\<close>; when \<open>s2\<close>
  completes after one decision of its own, the history has two entries and the page
  reports two decisions made during this session.
\<close>

theorem second_start_keeps_history:
  "sessionId session_done = Some ''s1'' \<and>
   conversionHistory session_done = [entry_A] \<and>
   sessionId session_two = Some ''s2'' \<and>
   conversionHistory session_two = [entry_A] \<and>
   conversionHistory (click_decision_option 0 srv_done session_two) = [entry_A, entry_A] \<and>
   progressCount (click_decision_option 0 srv_done session_two) = Some 2"
  by code_simp

end
